theory Spec2Isabelle
  imports Complex_Main "HOL-Library.Word"
begin

section \<open>Machine numbers\<close>

text \<open>
  \<^verbatim>\<open>size_t\<close> is a 64-bit unsigned word: \<open>+\<close>, \<open>-\<close> and \<open>*\<close> wrap around, \<open>div\<close>,
  \<open>mod\<close> and the order are the unsigned ones.
\<close>

type_synonym size_t = "64 word"

text \<open>
  A C++ \<^verbatim>\<open>float\<close> is an IEEE 754 binary32 number: 24 bits of precision, the least
  positive value \<open>2^-149\<close>, the greatest finite value \<open>(2^24 - 1) * 2^104\<close>. A finite
  value is kept as its sign and its magnitude in units of \<open>2^-149\<close>, so \<open>Finite False k\<close>
  is \<open>k * 2^-149\<close>, \<open>Finite True 0\<close> is the negative zero and \<open>1.0f\<close> is
  \<open>Finite False (2^149)\<close>.
\<close>

datatype float = Finite bool nat | Infinity bool | NaN

definition float_one :: float where
  "float_one = Finite False (2 ^ 149)"

text \<open>The number of binary digits of a number.\<close>

fun bitLength :: "nat \<Rightarrow> nat" where
  "bitLength n = (if n = 0 then 0 else bitLength (n div 2) + 1)"

declare bitLength.simps [simp del]

text \<open>
  The distance of neighbouring floats around \<open>n\<close> units is \<open>2 ^ ulpExponent n\<close> units:
  one unit below \<open>2^24\<close> units (the subnormal numbers and the first normal ones), and
  such that 24 digits remain above.
\<close>

definition ulpExponent :: "nat \<Rightarrow> nat" where
  "ulpExponent n = (if n < 2 ^ 24 then 0 else bitLength n - 24)"

text \<open>
  Rounding the exact magnitude \<open>p / q\<close> units to a float, to the nearest and on a tie
  to the even one, as every arithmetic operation of binary32 does; a result of
  \<open>2^277\<close> units (\<open>2^128\<close>) or more is an overflow to infinity.
\<close>

definition roundToFloat :: "bool \<Rightarrow> nat \<Rightarrow> nat \<Rightarrow> float" where
  "roundToFloat negative p q =
     (let j = ulpExponent (p div q);
          u = 2 ^ j * q;
          m = p div u;
          r = p mod u;
          m' = (if u < 2 * r \<or> (2 * r = u \<and> odd m) then m + 1 else m);
          k = m' * 2 ^ j
      in if 2 ^ 277 \<le> k then Infinity negative else Finite negative k)"

text \<open>The values of the datatype that are floats: a finite one has at most 24 digits.\<close>

fun isFloat :: "float \<Rightarrow> bool" where
  "isFloat (Finite negative k) = (k < 2 ^ 277 \<and> k mod 2 ^ ulpExponent k = 0)"
| "isFloat (Infinity negative) = True"
| "isFloat NaN = True"

fun isFinite :: "float \<Rightarrow> bool" where
  "isFinite (Finite negative k) = True"
| "isFinite (Infinity negative) = False"
| "isFinite NaN = False"

text \<open>The product \<^verbatim>\<open>x * y\<close> and the quotient \<^verbatim>\<open>x / y\<close>.\<close>

fun fmul :: "float \<Rightarrow> float \<Rightarrow> float" where
  "fmul NaN y = NaN"
| "fmul x NaN = NaN"
| "fmul (Finite s a) (Finite t b) = roundToFloat (s \<noteq> t) (a * b) (2 ^ 149)"
| "fmul (Finite s a) (Infinity t) = (if a = 0 then NaN else Infinity (s \<noteq> t))"
| "fmul (Infinity s) (Finite t b) = (if b = 0 then NaN else Infinity (s \<noteq> t))"
| "fmul (Infinity s) (Infinity t) = Infinity (s \<noteq> t)"

fun fdiv :: "float \<Rightarrow> float \<Rightarrow> float" where
  "fdiv NaN y = NaN"
| "fdiv x NaN = NaN"
| "fdiv (Finite s a) (Finite t b) =
     (if b = 0 then (if a = 0 then NaN else Infinity (s \<noteq> t))
      else roundToFloat (s \<noteq> t) (a * 2 ^ 149) b)"
| "fdiv (Finite s a) (Infinity t) = Finite (s \<noteq> t) 0"
| "fdiv (Infinity s) (Finite t b) = Infinity (s \<noteq> t)"
| "fdiv (Infinity s) (Infinity t) = NaN"

text \<open>A finite value as a signed number of units.\<close>

definition signedUnits :: "bool \<Rightarrow> nat \<Rightarrow> int" where
  "signedUnits negative k = (if negative then - int k else int k)"

text \<open>The difference \<^verbatim>\<open>x - y\<close>; an exact zero is negative only for \<open>-0 - +0\<close>.\<close>

fun fsub :: "float \<Rightarrow> float \<Rightarrow> float" where
  "fsub NaN y = NaN"
| "fsub x NaN = NaN"
| "fsub (Finite s a) (Finite t b) =
     (let d = signedUnits s a - signedUnits t b in
      if d = 0 then Finite (s \<and> \<not> t) 0 else roundToFloat (d < 0) (nat \<bar>d\<bar>) 1)"
| "fsub (Finite s a) (Infinity t) = Infinity (\<not> t)"
| "fsub (Infinity s) (Finite t b) = Infinity s"
| "fsub (Infinity s) (Infinity t) = (if s = t then NaN else Infinity s)"

text \<open>The comparison \<^verbatim>\<open>x > y\<close>, false when either side is NaN.\<close>

fun fgt :: "float \<Rightarrow> float \<Rightarrow> bool" where
  "fgt (Finite s a) (Finite t b) = (signedUnits t b < signedUnits s a)"
| "fgt (Infinity s) (Finite t b) = (\<not> s)"
| "fgt (Infinity s) (Infinity t) = (\<not> s \<and> t)"
| "fgt (Finite s a) (Infinity t) = t"
| "fgt x y = False"

text \<open>The conversion \<^verbatim>\<open>(float)n\<close> of a \<^verbatim>\<open>size_t\<close>; it rounds above \<open>2^24\<close>.\<close>

definition ofSize :: "size_t \<Rightarrow> float" where
  "ofSize n = roundToFloat False (unat n * 2 ^ 149) 1"

text \<open>
  \<^verbatim>\<open>std::log\<close>, \<^verbatim>\<open>std::exp\<close> and \<^verbatim>\<open>std::sqrt\<close> on \<^verbatim>\<open>float\<close> belong to the C library, which
  fixes their results only up to its own accuracy: they are parameters.
\<close>

record MathLib =
  std_log :: "float \<Rightarrow> float"
  std_exp :: "float \<Rightarrow> float"
  std_sqrt :: "float \<Rightarrow> float"

text \<open>
  What stops a call: a fatal \<^verbatim>\<open>ABORT_IF\<close>, an uncaught \<^verbatim>\<open>std::out_of_range\<close>, or
  undefined behaviour of C++ (integer division by zero, indexing an empty vector,
  a null pointer).
\<close>

datatype failure =
    CountMismatch
  | ShapeMismatch
  | StreamBad
  | StdOutOfRange
  | DivisionByZero
  | IndexOutOfBounds
  | NullPointer

section \<open>Cost scaling\<close>

text \<open>The members of \<^verbatim>\<open>GraphGroup\<close> that the cost-scale controller reads and writes.\<close>

record CostScale =
  costScale :: bool
  costScaleFactor :: float
  costScaleFreq :: size_t
  costScaleMultiplier :: float
  costScaleNanTolerance :: float
  costScaleNanRange :: size_t
  costScaleFactorMinimum :: float
  noNanSeen :: size_t
  nanSeen :: size_t

text \<open>
  \<^verbatim>\<open>GraphGroup::increaseCostScaleFactor\<close>. The remainder
  \<^verbatim>\<open>noNanSeen_ % costScaleFreq_\<close> is undefined for a frequency of 0. The local
  \<^verbatim>\<open>nanPercent\<close> is only logged.
\<close>

definition increaseCostScaleFactor :: "CostScale \<Rightarrow> failure + CostScale" where
  "increaseCostScaleFactor s =
     (if \<not> costScale s then Inr s
      else
        let s1 = s\<lparr>noNanSeen := noNanSeen s + 1\<rparr> in
        if costScaleFreq s1 = 0 then Inl DivisionByZero
        else if noNanSeen s1 mod costScaleFreq s1 = 0 then
          Inr (s1\<lparr>costScaleFactor := fmul (costScaleFactor s1) (costScaleMultiplier s1),
                   noNanSeen := 0, nanSeen := 0\<rparr>)
        else Inr s1)"

text \<open>\<^verbatim>\<open>GraphGroup::decreaseCostScaleFactor\<close>.\<close>

definition decreaseCostScaleFactor :: "CostScale \<Rightarrow> CostScale" where
  "decreaseCostScaleFactor s =
     (if \<not> costScale s then s
      else
        let s1 = s\<lparr>nanSeen := nanSeen s + 1\<rparr>;
            total = nanSeen s1 + noNanSeen s1;
            nanPercent = fdiv (ofSize (nanSeen s1)) (ofSize total)
        in
        if costScaleNanRange s1 \<le> total \<and> fgt nanPercent (costScaleNanTolerance s1) then
          (if fgt (costScaleFactor s1) (costScaleFactorMinimum s1) then
             s1\<lparr>costScaleFactor := fdiv (costScaleFactor s1) (costScaleMultiplier s1),
                noNanSeen := 0, nanSeen := 0\<rparr>
           else s1\<lparr>noNanSeen := 0, nanSeen := 0\<rparr>)
        else s1)"

text \<open>
  A training run reports one outcome per update: \<open>True\<close> when a NaN or Inf was seen
  (the factor may be decreased), \<open>False\<close> otherwise (it may be increased).
\<close>

fun costScaleSteps :: "bool list \<Rightarrow> CostScale \<Rightarrow> failure + CostScale" where
  "costScaleSteps [] s = Inr s"
| "costScaleSteps (True # outcomes) s = costScaleSteps outcomes (decreaseCostScaleFactor s)"
| "costScaleSteps (False # outcomes) s =
     (case increaseCostScaleFactor s of
        Inl e \<Rightarrow> Inl e
      | Inr s' \<Rightarrow> costScaleSteps outcomes s')"

text \<open>A configuration \<^verbatim>\<open>--cost-scaling 2 2000 2 0 1 3\<close>: factor \<open>2^2\<close>, minimum 3.\<close>

definition costScaleMin3 :: CostScale where
  "costScaleMin3 =
     \<lparr>costScale = True, costScaleFactor = Finite False (4 * 2 ^ 149), costScaleFreq = 2000,
      costScaleMultiplier = Finite False (2 * 2 ^ 149), costScaleNanTolerance = Finite False 0,
      costScaleNanRange = 1, costScaleFactorMinimum = Finite False (3 * 2 ^ 149),
      noNanSeen = 0, nanSeen = 0\<rparr>"

text \<open>
  The usual configuration \<^verbatim>\<open>--cost-scaling 7 2000 2 0.05 10 1\<close>; the float \<^verbatim>\<open>0.05f\<close> is
  \<open>13421773 * 2^-28\<close>.
\<close>

definition costScaleDefault :: CostScale where
  "costScaleDefault =
     \<lparr>costScale = True, costScaleFactor = Finite False (128 * 2 ^ 149), costScaleFreq = 2000,
      costScaleMultiplier = Finite False (2 * 2 ^ 149),
      costScaleNanTolerance = Finite False (13421773 * 2 ^ 121),
      costScaleNanRange = 10, costScaleFactorMinimum = Finite False (2 ^ 149),
      noNanSeen = 0, nanSeen = 0\<rparr>"

text \<open>
  The same with a tolerance of \<^verbatim>\<open>0.7f\<close>, which is \<open>11744051 * 2^-24\<close>, after three clean
  updates and six with a NaN.
\<close>

definition costScaleSixOfNine :: CostScale where
  "costScaleSixOfNine =
     costScaleDefault\<lparr>costScaleNanTolerance := Finite False (11744051 * 2 ^ 125),
       noNanSeen := 3, nanSeen := 6\<rparr>"

text \<open>A factor of 24 digits, \<open>9227469 * 2^-16\<close>, whose triple has 25.\<close>

definition costScaleLongFactor :: CostScale where
  "costScaleLongFactor = costScaleDefault\<lparr>costScaleFactor := Finite False (9227469 * 2 ^ 133)\<rparr>"

section \<open>The normalization factor\<close>

text \<open>What \<^verbatim>\<open>computeNormalizationFactor\<close> reads from the scheduler.\<close>

record Scheduler =
  numberOfBatches :: size_t
  gradientNormStats :: "size_t \<times> float \<times> float"
  logGradientNormStats :: "size_t \<times> float \<times> float"

record DynamicScaling =
  dynamicGradientScaling :: bool
  dynamicGradientScalingFactor :: float
  dynamicGradientScalingUseLogs :: bool

text \<open>
  \<^verbatim>\<open>GraphGroup::computeNormalizationFactor\<close>; \<open>normalizeGradient\<close> is the option
  \<^verbatim>\<open>normalize-gradient\<close>. The scheduler is a pointer, read only in the dynamic branch.
  In \<^verbatim>\<open>normalizationFactor *= updateTrgWords\<close> and \<^verbatim>\<open>gNorm / updateTrgWords\<close> the
  \<^verbatim>\<open>size_t\<close> is converted to \<^verbatim>\<open>float\<close> first.
\<close>

definition computeNormalizationFactor ::
  "MathLib \<Rightarrow> CostScale \<Rightarrow> DynamicScaling \<Rightarrow> bool \<Rightarrow> Scheduler option \<Rightarrow> float \<Rightarrow> size_t
     \<Rightarrow> failure + float" where
  "computeNormalizationFactor lib cs dyn normalizeGradient scheduler gNorm updateTrgWords =
     (let nf0 = float_one;
          nf1 = (if costScale cs then fmul nf0 (costScaleFactor cs) else nf0);
          nf2 = (if normalizeGradient then fmul nf1 (ofSize updateTrgWords) else nf1)
      in
      if \<not> isFinite gNorm then Inr nf2
      else if dynamicGradientScaling dyn then
        (case scheduler of
           None \<Rightarrow> Inl NullPointer
         | Some sch \<Rightarrow>
             let g1 = (if costScale cs then fdiv gNorm (costScaleFactor cs) else gNorm);
                 g2 = fdiv g1 (ofSize updateTrgWords);
                 useLogs = dynamicGradientScalingUseLogs dyn;
                 (window, gNormAvgTransform, gNormVarTransform) =
                    (if useLogs then logGradientNormStats sch else gradientNormStats sch);
                 gNormTransform = (if useLogs then std_log lib g2 else g2);
                 gNormAvg = (if useLogs then std_exp lib gNormAvgTransform else gNormAvgTransform);
                 deltaTransform = fsub gNormTransform gNormAvgTransform;
                 gNormStdTransform = std_sqrt lib gNormVarTransform
             in
             if window \<le> numberOfBatches sch
                \<and> fgt deltaTransform (fmul (dynamicGradientScalingFactor dyn) gNormStdTransform)
             then Inr (fmul nf2 (fdiv g2 gNormAvg))
             else Inr nf2)
      else Inr nf2)"

definition noDynamicScaling :: DynamicScaling where
  "noDynamicScaling =
     \<lparr>dynamicGradientScaling = False,
      dynamicGradientScalingFactor = Finite False (2 * 2 ^ 149),
      dynamicGradientScalingUseLogs = False\<rparr>"

text \<open>A C library whose three functions return their argument; it is never called below.\<close>

definition idleLib :: MathLib where
  "idleLib = \<lparr>std_log = (\<lambda>x. x), std_exp = (\<lambda>x. x), std_sqrt = (\<lambda>x. x)\<rparr>"

section \<open>Loading, restoring and saving\<close>

text \<open>
  The collaborators (model builders, optimizer shards, scheduler, graphs, logger) are
  outside this code. A call on one of them is recorded as an event, in the order of
  the calls; a collaborator is named by its index in its vector. An optional last
  argument that the call leaves out is \<open>None\<close>.
\<close>

datatype Type = Float16 | Float32 | Float64

record Item =
  itemName :: string
  itemShape :: "int list"
  itemType :: Type
  itemBytes :: "nat list"

datatype event =
    SchedulerLoad string
  | SchedulerSave string
  | ModelLoad nat string "bool option"
  | ModelSave nat string "bool option"
  | OptimizerLoad nat "Item list" nat nat
  | GraphForward nat
  | ItemConvert Type
  | ParamsSet nat Item
  | GraphClear nat
  | OptimizerSwap nat nat nat bool
  | Distribute
  | LogInfo string
  | LogWarn string

text \<open>A call returns the trace, or stops with a failure and the trace up to there.\<close>

type_synonym outcome = "(failure \<times> event list) + event list"

text \<open>The options read here; an option that is not set is \<open>None\<close>.\<close>

record Options =
  opt_no_reload :: bool
  opt_model :: string
  opt_pretrained_model :: "string option"
  opt_overwrite :: bool

text \<open>
  A graph, as far as this code reads it: shape and element type of its parameter
  tensor, once \<^verbatim>\<open>forward()\<close> has allocated it.
\<close>

record Graph =
  paramsShape :: "int list"
  paramsType :: Type

record GraphGroup =
  options :: Options
  scheduler :: "Scheduler option"
  graphs :: "Graph list"
  models :: "nat list"
  optimizerShards :: "nat list"

text \<open>The file system: the items stored under each path that exists.\<close>

type_synonym filesystem = "string \<Rightarrow> Item list option"

text \<open>
  The loop \<^verbatim>\<open>for(auto graph : graphs_) models_[i++]->load(graph, name, ...)\<close>.
  Indexing \<^verbatim>\<open>models_\<close> past its end is undefined.
\<close>

fun loadModels :: "nat \<Rightarrow> nat list \<Rightarrow> Graph list \<Rightarrow> string \<Rightarrow> bool option \<Rightarrow> event list
    \<Rightarrow> outcome" where
  "loadModels i ms [] name markReloaded tr = Inr tr"
| "loadModels i ms (g # gs) name markReloaded tr =
     (if i < length ms
      then loadModels (Suc i) ms gs name markReloaded (tr @ [ModelLoad i name markReloaded])
      else Inl (IndexOutOfBounds, tr))"

text \<open>
  The loop of \<^verbatim>\<open>restoreFromCheckpoint\<close> over the graphs. \<^verbatim>\<open>masterParameters\<close> is a
  reference to the item in the collection, so a conversion stays for the next graph.
\<close>

fun restoreGraphs :: "nat \<Rightarrow> Graph list \<Rightarrow> Item \<Rightarrow> event list \<Rightarrow> outcome" where
  "restoreGraphs i [] masterParameters tr = Inr tr"
| "restoreGraphs i (g # gs) masterParameters tr =
     (let tr1 = tr @ [GraphForward i] in
      if paramsShape g \<noteq> itemShape masterParameters then Inl (ShapeMismatch, tr1)
      else
        let converted = (itemType masterParameters \<noteq> paramsType g);
            masterParameters' =
              (if converted then masterParameters\<lparr>itemType := paramsType g\<rparr>
               else masterParameters);
            tr2 = (if converted then tr1 @ [ItemConvert (paramsType g)] else tr1)
        in restoreGraphs (Suc i) gs masterParameters'
             (tr2 @ [ParamsSet i masterParameters', GraphClear i]))"

text \<open>\<^verbatim>\<open>GraphGroup::restoreFromCheckpoint\<close>.\<close>

definition restoreFromCheckpoint :: "GraphGroup \<Rightarrow> filesystem \<Rightarrow> event list \<Rightarrow> outcome" where
  "restoreFromCheckpoint grp fs tr =
     (let name = opt_model (options grp);
          checkpointName = name @ ''.optimizer.npz''
      in
      case fs checkpointName of
        None \<Rightarrow>
          Inr (tr @ [LogWarn ''No checkpoint found, parameters reloaded from last inference model''])
      | Some items \<Rightarrow>
          (case optimizerShards grp of
             [] \<Rightarrow> Inl (IndexOutOfBounds, tr)
           | shard0 # _ \<Rightarrow>
               let tr1 = tr @ [OptimizerLoad 0 items (length (optimizerShards grp))
                                 (length (graphs grp))]
               in
               (case find (\<lambda>item. itemName item = ''master_parameters'') items of
                  None \<Rightarrow>
                    Inr (tr1 @ [LogWarn ''No master parameters found in checkpoint, parameters reloaded from last inference model''])
                | Some masterParameters \<Rightarrow>
                    (case restoreGraphs 0 (graphs grp) masterParameters tr1 of
                       Inl e \<Rightarrow> Inl e
                     | Inr tr2 \<Rightarrow>
                         Inr (tr2 @ [LogInfo (''[training] Master parameters and optimizers restored from training checkpoint ''
                                       @ name @ '' and '' @ checkpointName)])))))"

text \<open>\<^verbatim>\<open>Options::hasAndNotEmpty\<close> on a string option.\<close>

fun hasAndNotEmpty :: "string option \<Rightarrow> bool" where
  "hasAndNotEmpty None = False"
| "hasAndNotEmpty (Some v) = (v \<noteq> [])"

text \<open>\<^verbatim>\<open>GraphGroup::load\<close>.\<close>

definition load :: "GraphGroup \<Rightarrow> filesystem \<Rightarrow> event list \<Rightarrow> outcome" where
  "load grp fs tr =
     (if \<not> opt_no_reload (options grp) then
        let name = opt_model (options grp) in
        if fs name \<noteq> None then
          let tr1 = (if scheduler grp \<noteq> None then tr @ [SchedulerLoad name] else tr) in
          (case loadModels 0 (models grp) (graphs grp) name None tr1 of
             Inl e \<Rightarrow> Inl e
           | Inr tr2 \<Rightarrow> restoreFromCheckpoint grp fs tr2)
        else if hasAndNotEmpty (opt_pretrained_model (options grp)) then
          (case opt_pretrained_model (options grp) of
             None \<Rightarrow> Inr tr
           | Some nameInit \<Rightarrow>
               loadModels 0 (models grp) (graphs grp) nameInit (Some False)
                 (tr @ [LogInfo (''[training] Initializing model weights with pre-trained model ''
                          @ nameInit)]))
        else Inr tr
      else Inr tr)"

text \<open>
  \<^verbatim>\<open>std::to_string\<close> of an unsigned number, and \<^verbatim>\<open>std::string::replace(pos, len, str)\<close>,
  which throws \<^verbatim>\<open>std::out_of_range\<close> for a position past the end.
\<close>

fun to_string :: "nat \<Rightarrow> string" where
  "to_string n =
     (if n < 10 then [''0123456789'' ! n]
      else to_string (n div 10) @ [''0123456789'' ! (n mod 10)])"

declare to_string.simps [simp del]

definition string_replace :: "string \<Rightarrow> nat \<Rightarrow> nat \<Rightarrow> string \<Rightarrow> string option" where
  "string_replace s pos len str =
     (if length s < pos then None else Some (take pos s @ str @ drop (pos + len) s))"

text \<open>
  \<^verbatim>\<open>GraphGroup::saveModel\<close>. The position \<^verbatim>\<open>name.size() - 4\<close> is computed in
  \<^verbatim>\<open>size_t\<close>. \<^verbatim>\<open>models_[0]\<close> and \<^verbatim>\<open>graphs_[0]\<close> are undefined on empty vectors.
\<close>

definition saveModel :: "GraphGroup \<Rightarrow> bool \<Rightarrow> event list \<Rightarrow> outcome" where
  "saveModel grp isFinal tr =
     (let name = opt_model (options grp) in
      if models grp = [] \<or> graphs grp = [] then Inl (IndexOutOfBounds, tr)
      else if opt_overwrite (options grp) then
        let tr1 = tr @ [ModelSave 0 name (Some True)] in
        Inr (if scheduler grp \<noteq> None then tr1 @ [SchedulerSave name] else tr1)
      else
        let snapshot =
              (if \<not> isFinal then
                 let numberOfBatchesStr =
                       (case scheduler grp of
                          Some sch \<Rightarrow> to_string (unat (numberOfBatches sch))
                        | None \<Rightarrow> ''unknown'');
                     pos = unat ((word_of_nat (length name) :: size_t) - 4)
                 in
                 (case string_replace name pos 4 (''.iter'' @ numberOfBatchesStr @ ''.npz'') of
                    None \<Rightarrow> Inl (StdOutOfRange, tr)
                  | Some nameOverwrite \<Rightarrow> Inr (tr @ [ModelSave 0 nameOverwrite None]))
               else Inr tr)
        in
        (case snapshot of
           Inl e \<Rightarrow> Inl e
         | Inr tr1 \<Rightarrow>
             let tr2 = tr1 @ [ModelSave 0 name (Some True)] in
             Inr (if scheduler grp \<noteq> None then tr2 @ [SchedulerSave name] else tr2)))"

text \<open>
  \<^verbatim>\<open>GraphGroup::swapWithSmoothed\<close> and \<^verbatim>\<open>GraphGroup::swapWithOriginal\<close>: the call
  \<^verbatim>\<open>opts[i]->swapWithSmoothed(graphs[i], i, graphs.size(), swapAvg)\<close> is the event
  \<open>OptimizerSwap i i n swapAvg\<close>.
\<close>

fun swapEach :: "nat \<Rightarrow> nat \<Rightarrow> bool \<Rightarrow> Graph list \<Rightarrow> event list \<Rightarrow> event list" where
  "swapEach i n swapAvg [] tr = tr"
| "swapEach i n swapAvg (g # gs) tr =
     swapEach (Suc i) n swapAvg gs (tr @ [OptimizerSwap i i n swapAvg])"

definition swapWithSmoothed :: "Graph list \<Rightarrow> nat list \<Rightarrow> event list \<Rightarrow> outcome" where
  "swapWithSmoothed gs opts tr =
     (if length gs \<noteq> length opts then Inl (CountMismatch, tr)
      else Inr (swapEach 0 (length gs) True gs tr @ [Distribute]))"

definition swapWithOriginal :: "Graph list \<Rightarrow> nat list \<Rightarrow> event list \<Rightarrow> outcome" where
  "swapWithOriginal gs opts tr =
     (if length gs \<noteq> length opts then Inl (CountMismatch, tr)
      else Inr (swapEach 0 (length gs) False gs tr @ [Distribute]))"

text \<open>
  A group of two replicas that is started with \<^verbatim>\<open>--no-reload\<close> and
  \<^verbatim>\<open>--pretrained-model pre.npz\<close>, after 1500 batches.
\<close>

definition twoReplicas :: GraphGroup where
  "twoReplicas =
     \<lparr>options = \<lparr>opt_no_reload = True, opt_model = ''model.npz'',
                  opt_pretrained_model = Some ''pre.npz'', opt_overwrite = False\<rparr>,
      scheduler = Some \<lparr>numberOfBatches = 1500,
                         gradientNormStats = (100, float_one, float_one),
                         logGradientNormStats = (100, Finite False 0, float_one)\<rparr>,
      graphs = [\<lparr>paramsShape = [1, 1000], paramsType = Float32\<rparr>,
                \<lparr>paramsShape = [1, 1000], paramsType = Float32\<rparr>],
      models = [0, 1],
      optimizerShards = [0, 1]\<rparr>"

text \<open>A disk with the model, the pretrained model and a checkpoint of the given items.\<close>

definition diskWith :: "Item list \<Rightarrow> filesystem" where
  "diskWith items =
     (\<lambda>path. if path = ''model.npz'' \<or> path = ''pre.npz'' then Some []
             else if path = ''model.npz.optimizer.npz'' then Some items
             else None)"

definition emptyDisk :: filesystem where
  "emptyDisk = (\<lambda>path. None)"

definition masterItem :: "int list \<Rightarrow> Item" where
  "masterItem shape =
     \<lparr>itemName = ''master_parameters'', itemShape = shape, itemType = Float16,
      itemBytes = [1, 2, 3]\<rparr>"

definition adamItem :: Item where
  "adamItem =
     \<lparr>itemName = ''adam_mt'', itemShape = [1, 1000], itemType = Float32, itemBytes = [4, 5]\<rparr>"

section \<open>Probing the batch size\<close>

text \<open>
  The two loops of \<^verbatim>\<open>GraphGroup::collectStats\<close>. Whether a fake batch fits the
  workspace is decided outside this code, by \<^verbatim>\<open>graph->fits()\<close> after the batch has
  been built: the oracle is asked with the number of earlier calls, the lengths of
  the batch and its size, so it covers every sequence of answers as well as every
  predicate on batches. Either loop may run forever; not returning is \<open>None\<close>.
\<close>

type_synonym fitsOracle = "nat \<Rightarrow> size_t list \<Rightarrow> size_t \<Rightarrow> bool"

text \<open>What \<^verbatim>\<open>stats->add(batch, multiplier)\<close> receives: lengths and size of each batch that fits.\<close>

type_synonym stats = "(size_t list \<times> size_t) list"

text \<open>\<^verbatim>\<open>lengths(numFiles, len)\<close>, each entry cut down to its entry of \<^verbatim>\<open>localMaxes\<close>.\<close>

definition bucketLengths :: "size_t \<Rightarrow> size_t list \<Rightarrow> size_t list" where
  "bucketLengths len localMaxes = map (\<lambda>localMax. min len localMax) localMaxes"

text \<open>The loop \<^verbatim>\<open>while(fits)\<close> that doubles \<^verbatim>\<open>maxBatch\<close>.\<close>

partial_function (option) collectStats_doubling ::
  "fitsOracle \<Rightarrow> size_t list \<Rightarrow> nat \<Rightarrow> size_t \<Rightarrow> (nat \<times> size_t) option" where
  "collectStats_doubling fits lengths calls maxBatch =
     (if fits calls lengths maxBatch
      then collectStats_doubling fits lengths (Suc calls) (maxBatch * 2)
      else Some (Suc calls, maxBatch))"

text \<open>The loop \<^verbatim>\<open>do { ... } while(end - start > step)\<close> of one length; it returns \<^verbatim>\<open>start\<close>.\<close>

partial_function (option) collectStats_search ::
  "fitsOracle \<Rightarrow> size_t \<Rightarrow> size_t list \<Rightarrow> nat \<Rightarrow> stats \<Rightarrow> size_t \<Rightarrow> size_t
     \<Rightarrow> (nat \<times> stats \<times> size_t) option" where
  "collectStats_search fits step lengths calls stats start end =
     (let current = (start + end) div 2;
          ok = fits calls lengths current;
          stats' = (if ok then stats @ [(lengths, current)] else stats);
          start' = (if ok then current + 1 else start);
          end' = (if ok then end else current - 1)
      in
      if step < end' - start'
      then collectStats_search fits step lengths (Suc calls) stats' start' end'
      else Some (Suc calls, stats', start'))"

text \<open>The loop \<^verbatim>\<open>for(size_t i = step; i <= maxLength; i += step)\<close>.\<close>

partial_function (option) collectStats_buckets ::
  "fitsOracle \<Rightarrow> size_t \<Rightarrow> size_t \<Rightarrow> size_t list \<Rightarrow> size_t \<Rightarrow> nat \<Rightarrow> stats \<Rightarrow> size_t
     \<Rightarrow> (nat \<times> stats \<times> size_t) option" where
  "collectStats_buckets fits step maxLength localMaxes i calls stats maxBatch =
     (if i \<le> maxLength then
        (case collectStats_search fits step (bucketLengths i localMaxes) calls stats 1 maxBatch of
           None \<Rightarrow> None
         | Some (calls', stats', start) \<Rightarrow>
             collectStats_buckets fits step maxLength localMaxes (i + step) calls' stats' start)
      else Some (calls, stats, maxBatch))"

text \<open>
  Both phases, from \<^verbatim>\<open>size_t maxBatch = 512\<close> on; \<open>maxLength\<close> is the rounded maximal
  length and \<open>localMaxes\<close> the vector of that name.
\<close>

definition collectStats_probe ::
  "fitsOracle \<Rightarrow> size_t \<Rightarrow> size_t \<Rightarrow> size_t list \<Rightarrow> stats option" where
  "collectStats_probe fits step maxLength localMaxes =
     (case collectStats_doubling fits (bucketLengths step localMaxes) 0 512 of
        None \<Rightarrow> None
      | Some (calls, maxBatch) \<Rightarrow>
          (case collectStats_buckets fits step maxLength localMaxes step calls [] maxBatch of
             None \<Rightarrow> None
           | Some (calls', stats, maxBatch') \<Rightarrow> Some stats))"

section \<open>Reading lines\<close>

text \<open>
  An input stream: the characters still to come, whether the device fails with an
  error once they are used up (instead of reaching the end of the file), and the
  three state bits of \<^verbatim>\<open>std::ios\<close>.
\<close>

record istream =
  buffer :: string
  deviceError :: bool
  eofbit :: bool
  failbit :: bool
  badbit :: bool

definition LF :: char where
  "LF = CHR 0x0A"

definition CR :: char where
  "CR = CHR 0x0D"

definition good :: "istream \<Rightarrow> bool" where
  "good s \<longleftrightarrow> \<not> eofbit s \<and> \<not> failbit s \<and> \<not> badbit s"

text \<open>\<^verbatim>\<open>fail()\<close>; the conversion of a stream to \<^verbatim>\<open>bool\<close> is its negation.\<close>

definition fail :: "istream \<Rightarrow> bool" where
  "fail s \<longleftrightarrow> failbit s \<or> badbit s"

text \<open>
  \<^verbatim>\<open>std::getline(in, line)\<close> of the standard library: on a stream that is not good
  it sets \<^verbatim>\<open>failbit\<close> and leaves the line; otherwise it clears the line and extracts
  up to the next line feed, which it drops, or up to the end, where it sets
  \<^verbatim>\<open>eofbit\<close> (\<^verbatim>\<open>badbit\<close> on an error of the device), and \<^verbatim>\<open>failbit\<close> when it has extracted
  nothing.
\<close>

definition std_getline :: "istream \<Rightarrow> string \<Rightarrow> istream \<times> string" where
  "std_getline s line =
     (if \<not> good s then (s\<lparr>failbit := True\<rparr>, line)
      else if LF \<in> set (buffer s) then
        (s\<lparr>buffer := tl (dropWhile (\<lambda>c. c \<noteq> LF) (buffer s))\<rparr>,
         takeWhile (\<lambda>c. c \<noteq> LF) (buffer s))
      else
        (s\<lparr>buffer := [],
           eofbit := \<not> deviceError s,
           failbit := (buffer s = []),
           badbit := deviceError s\<rparr>,
         buffer s))"

text \<open>\<^verbatim>\<open>marian::io::getline\<close>.\<close>

definition getline :: "istream \<Rightarrow> string \<Rightarrow> failure + istream \<times> string" where
  "getline s line =
     (let (s', line') = std_getline s line in
      if badbit s' then Inl StreamBad
      else if \<not> fail s' \<and> line' \<noteq> [] \<and> last line' = CR then Inr (s', butlast line')
      else Inr (s', line'))"

text \<open>A file with Windows line ends whose first line ends in two carriage returns.\<close>

definition windowsFile :: istream where
  "windowsFile =
     \<lparr>buffer = ''ab'' @ [CR, CR, LF] @ ''c'' @ [CR], deviceError = False,
      eofbit = False, failbit = False, badbit = False\<rparr>"

section \<open>Properties of the float arithmetic\<close>

lemma round_exact:
  assumes "isFloat (Finite s a)" and "0 < q"
  shows "roundToFloat s (a * q) q = Finite s a"
proof -
  define j where "j = ulpExponent a"
  define u where "u = 2 ^ j * q"
  from assms(1) have small: "a < 2 ^ 277" and dv: "a mod 2 ^ j = 0"
    by (simp_all add: j_def)
  have n: "a * q div q = a"
    using assms(2) by simp
  have upos: "0 < u"
    using assms(2) by (simp add: u_def)
  have d: "a * q div u = a div 2 ^ j"
    using assms(2) by (simp add: u_def)
  have m: "a * q mod u = 0"
    using dv by (simp add: u_def mod_mult_mult2)
  have whole: "a div 2 ^ j * 2 ^ j = a"
    using dv by (simp add: mod_eq_0_iff_dvd)
  have "roundToFloat s (a * q) q
      = (if 2 ^ 277 \<le> a div 2 ^ j * 2 ^ j then Infinity s else Finite s (a div 2 ^ j * 2 ^ j))"
    unfolding roundToFloat_def Let_def n j_def [symmetric] u_def [symmetric] d m
    using upos by auto
  with small show ?thesis
    by (simp only: whole) simp
qed

lemma bitLength_bounds:
  "0 < n \<Longrightarrow> 2 ^ (bitLength n - 1) \<le> n \<and> n < 2 ^ bitLength n"
proof (induction n rule: bitLength.induct)
  case (1 n)
  show ?case
  proof (cases "n div 2 = 0")
    case True
    with "1.prems" have "n = 1" by (simp add: div_eq_0_iff)
    then show ?thesis by (simp add: bitLength.simps)
  next
    case False
    then have pos: "0 < n div 2" by simp
    from "1.IH" [OF _ pos] "1.prems"
    have ih: "2 ^ (bitLength (n div 2) - 1) \<le> n div 2" "n div 2 < 2 ^ bitLength (n div 2)"
      by simp_all
    have len: "bitLength n = bitLength (n div 2) + 1"
      using "1.prems" by (subst bitLength.simps) simp
    have lpos: "0 < bitLength (n div 2)"
      using pos by (subst bitLength.simps) simp
    have "2 * 2 ^ (bitLength (n div 2) - 1) \<le> n" using ih(1) by linarith
    moreover have "2 * 2 ^ (bitLength (n div 2) - 1) = (2::nat) ^ bitLength (n div 2)"
      using lpos by (cases "bitLength (n div 2)") simp_all
    moreover have "n < 2 * 2 ^ bitLength (n div 2)" using ih(2) by linarith
    ultimately show ?thesis by (simp add: len)
  qed
qed

lemma bitLength_eq:
  assumes "2 ^ b \<le> n" and "n < 2 ^ (b + 1)"
  shows "bitLength n = b + 1"
proof -
  have pos: "0 < n" using assms(1) by (metis less_le_trans zero_less_numeral zero_less_power)
  from bitLength_bounds [OF pos]
  have lo: "2 ^ (bitLength n - 1) \<le> n" and hi: "n < 2 ^ bitLength n" by simp_all
  have two: "(1::nat) < 2" by simp
  have "(2::nat) ^ b < 2 ^ bitLength n" using assms(1) hi by linarith
  with two have 1: "b < bitLength n" by (rule power_less_imp_less_exp)
  have "(2::nat) ^ (bitLength n - 1) < 2 ^ (b + 1)" using lo assms(2) by linarith
  with two have 2: "bitLength n - 1 < b + 1" by (rule power_less_imp_less_exp)
  from 1 2 show ?thesis by linarith
qed

lemma isFloat_scaled:
  assumes "2 ^ 23 \<le> m" and "m \<le> 2 ^ 24" and "0 < j"
  shows "(m * 2 ^ j) mod 2 ^ ulpExponent (m * 2 ^ j) = 0"
proof (cases "m = 2 ^ 24")
  case True
  have "bitLength (2 ^ (24 + j)) = (24 + j) + 1"
    by (rule bitLength_eq) simp_all
  moreover have "\<not> (2::nat) ^ (24 + j) < 2 ^ 24"
  proof -
    have "(2::nat) ^ 24 \<le> 2 ^ (24 + j)" by (rule power_increasing) simp_all
    then show ?thesis by linarith
  qed
  ultimately have "ulpExponent (2 ^ (24 + j)) = j + 1"
    by (simp add: ulpExponent_def)
  moreover have "m * 2 ^ j = 2 ^ (24 + j)" using True by (simp add: power_add)
  moreover have "(2::nat) ^ (24 + j) mod 2 ^ (j + 1) = 0"
  proof -
    have "(2::nat) ^ (j + 1) dvd 2 ^ (24 + j)" by (rule le_imp_power_dvd) simp
    then show ?thesis by (rule dvd_imp_mod_0)
  qed
  ultimately show ?thesis by simp
next
  case False
  with assms(2) have lt: "m < 2 ^ 24" by simp
  have lo: "2 ^ (23 + j) \<le> m * 2 ^ j"
    using assms(1) by (simp add: power_add)
  have hi: "m * 2 ^ j < 2 ^ (23 + j + 1)"
    using lt by (simp add: power_add)
  have "bitLength (m * 2 ^ j) = 23 + j + 1"
    using lo hi by (rule bitLength_eq)
  moreover have "\<not> m * 2 ^ j < 2 ^ 24"
  proof -
    have "(2::nat) ^ 24 \<le> 2 ^ (23 + j)" using assms(3) by (intro power_increasing) simp_all
    with lo show ?thesis by linarith
  qed
  ultimately have "ulpExponent (m * 2 ^ j) = j"
    by (simp add: ulpExponent_def)
  then show ?thesis by simp
qed

lemma isFloat_roundToFloat:
  assumes "0 < q"
  shows "isFloat (roundToFloat s p q)"
proof -
  define n where "n = p div q"
  define j where "j = ulpExponent n"
  define u where "u = 2 ^ j * q"
  define m where "m = p div u"
  define m' where "m' = (if u < 2 * (p mod u) \<or> (2 * (p mod u) = u \<and> odd m) then m + 1 else m)"
  have r: "roundToFloat s p q
      = (if 2 ^ 277 \<le> m' * 2 ^ j then Infinity s else Finite s (m' * 2 ^ j))"
    by (simp add: roundToFloat_def Let_def n_def j_def u_def m_def m'_def)
  have mn: "m = n div 2 ^ j"
    by (simp add: m_def u_def n_def div_mult2_eq mult.commute)
  have m'_range: "m \<le> m'" "m' \<le> m + 1"
    by (simp_all add: m'_def)
  have valid: "(m' * 2 ^ j) mod 2 ^ ulpExponent (m' * 2 ^ j) = 0"
  proof (cases "n < 2 ^ 24")
    case True
    then have j0: "j = 0" by (simp add: j_def ulpExponent_def)
    with mn True m'_range have le: "m' \<le> 2 ^ 24" by simp
    show ?thesis
    proof (cases "m' = 2 ^ 24")
      case True
      have "bitLength (2 ^ 24) = 24 + 1" by (rule bitLength_eq) simp_all
      then have "ulpExponent (2 ^ 24) = 1" by (simp add: ulpExponent_def)
      with True j0 show ?thesis by simp
    next
      case False
      with le have "m' < 2 ^ 24" by simp
      with j0 show ?thesis by (simp add: ulpExponent_def)
    qed
  next
    case False
    then have big: "2 ^ 24 \<le> n" by simp
    then have pos: "0 < n" by (metis less_le_trans zero_less_numeral zero_less_power)
    from bitLength_bounds [OF pos]
    have lo: "2 ^ (bitLength n - 1) \<le> n" and hi: "n < 2 ^ bitLength n" by simp_all
    have two: "(1::nat) < 2" by simp
    have "(2::nat) ^ 24 < 2 ^ bitLength n" using big hi by linarith
    with two have len: "24 < bitLength n" by (rule power_less_imp_less_exp)
    have jl: "j = bitLength n - 24" using False by (simp add: j_def ulpExponent_def)
    with len have jpos: "0 < j" by simp
    have e1: "bitLength n - 1 = 23 + j" using jl len by simp
    have e2: "bitLength n = 24 + j" using jl len by simp
    have "(2::nat) ^ (23 + j) \<le> n" using lo by (simp only: e1)
    then have "2 ^ 23 * 2 ^ j \<le> n" by (simp only: power_add)
    then have mlo: "2 ^ 23 \<le> m"
      unfolding mn by (simp add: less_eq_div_iff_mult_less_eq)
    have "n < 2 ^ (24 + j)" using hi by (simp only: e2)
    then have "n < 2 ^ 24 * 2 ^ j" by (simp only: power_add)
    then have mhi: "m < 2 ^ 24"
      unfolding mn by (simp add: less_mult_imp_div_less)
    from mlo mhi m'_range have "2 ^ 23 \<le> m'" "m' \<le> 2 ^ 24" by simp_all
    then show ?thesis using jpos by (rule isFloat_scaled)
  qed
  show ?thesis
    unfolding r using valid by simp
qed

lemma isFloat_fmul: "isFloat (fmul x y)"
  by (cases x; cases y) (simp_all add: isFloat_roundToFloat)

lemma isFloat_fdiv: "isFloat (fdiv x y)"
  by (cases x; cases y) (simp_all add: isFloat_roundToFloat)

lemma isFloat_ofSize: "isFloat (ofSize n)"
  by (simp add: ofSize_def isFloat_roundToFloat)

lemma fmul_one_left: "isFloat x \<Longrightarrow> fmul float_one x = x"
proof (cases x)
  case (Finite s a)
  assume "isFloat x"
  with Finite round_exact [of s a "2 ^ 149"] show ?thesis
    by (simp add: float_one_def mult.commute)
qed (simp_all add: float_one_def)

lemma fmul_one_right: "isFloat x \<Longrightarrow> fmul x float_one = x"
proof (cases x)
  case (Finite s a)
  assume "isFloat x"
  with Finite round_exact [of s a "2 ^ 149"] show ?thesis
    by (simp add: float_one_def)
qed (simp_all add: float_one_def)

lemma isFloat_one: "isFloat float_one"
  by (simp add: float_one_def ulpExponent_def bitLength.simps)

text \<open>The facts that evaluate the arithmetic on numerals.\<close>

lemmas float_eval =
  roundToFloat_def ulpExponent_def bitLength.simps ofSize_def signedUnits_def Let_def

text \<open>Some roundings: \<^verbatim>\<open>(float)7 / (float)10\<close> is \<^verbatim>\<open>0.7f\<close>, and \<open>2^24 + 1\<close> is no float.\<close>

lemma seven_tenths: "fdiv (ofSize 7) (ofSize 10) = Finite False (11744051 * 2 ^ 125)"
  by (simp add: float_eval)

lemma long_factor_times_three:
  "fmul (Finite False (9227469 * 2 ^ 133)) (ofSize 3) = Finite False (3460301 * 2 ^ 136)"
  by (simp add: float_eval)

lemma ofSize_rounds: "ofSize 16777217 = Finite False (16777216 * 2 ^ 149)"
  by (simp add: float_eval)

section \<open>Properties of cost scaling\<close>

text \<open>The factor stays a float, whatever the updates are.\<close>

lemma isFloat_increaseCostScaleFactor:
  "isFloat (costScaleFactor s) \<Longrightarrow> increaseCostScaleFactor s = Inr s'
     \<Longrightarrow> isFloat (costScaleFactor s')"
  by (auto simp: increaseCostScaleFactor_def Let_def isFloat_fmul split: if_splits)

lemma isFloat_decreaseCostScaleFactor:
  "isFloat (costScaleFactor s) \<Longrightarrow> isFloat (costScaleFactor (decreaseCostScaleFactor s))"
  by (simp add: decreaseCostScaleFactor_def Let_def isFloat_fdiv)

lemma isFloat_costScaleSteps:
  "isFloat (costScaleFactor s) \<Longrightarrow> costScaleSteps outcomes s = Inr s'
     \<Longrightarrow> isFloat (costScaleFactor s')"
proof (induction outcomes arbitrary: s)
  case Nil
  then show ?case by simp
next
  case (Cons b outcomes)
  show ?case
  proof (cases b)
    case True
    with Cons.prems Cons.IH [of "decreaseCostScaleFactor s"] show ?thesis
      by (simp add: isFloat_decreaseCostScaleFactor)
  next
    case False
    with Cons.prems obtain s1 where s1: "increaseCostScaleFactor s = Inr s1"
      and rest: "costScaleSteps outcomes s1 = Inr s'"
      by (cases "increaseCostScaleFactor s") simp_all
    from isFloat_increaseCostScaleFactor [OF Cons.prems(1) s1] rest show ?thesis
      by (rule Cons.IH)
  qed
qed

lemma decrease_above_threshold:
  assumes "costScale s"
    and "costScaleNanRange s \<le> nanSeen s + 1 + noNanSeen s"
    and "fgt (fdiv (ofSize (nanSeen s + 1)) (ofSize (nanSeen s + 1 + noNanSeen s)))
           (costScaleNanTolerance s)"
    and "fgt (costScaleFactor s) (costScaleFactorMinimum s)"
  shows "decreaseCostScaleFactor s =
     s\<lparr>costScaleFactor := fdiv (costScaleFactor s) (costScaleMultiplier s),
       noNanSeen := 0, nanSeen := 0\<rparr>"
  using assms by (simp add: decreaseCostScaleFactor_def Let_def)

text \<open>
  C1. The code does not keep the factor at or above \<^verbatim>\<open>costScaleFactorMinimum_\<close>: a
  decrease divides whenever the factor is above the minimum and does not look at the
  quotient. With \<^verbatim>\<open>--cost-scaling 2 2000 2 0 1 3\<close> the factor 4 is not below the
  minimum 3, and one update with a NaN leaves the factor 2, below the minimum.
\<close>

theorem costScaleFactor_drops_below_minimum:
  "\<not> fgt (costScaleFactorMinimum costScaleMin3) (costScaleFactor costScaleMin3)
   \<and> costScaleSteps [True] costScaleMin3
       = Inr (costScaleMin3\<lparr>costScaleFactor := Finite False (2 * 2 ^ 149)\<rparr>)
   \<and> fgt (costScaleFactorMinimum costScaleMin3) (Finite False (2 * 2 ^ 149))"
proof -
  have h: "costScale costScaleMin3"
    "costScaleNanRange costScaleMin3 \<le> nanSeen costScaleMin3 + 1 + noNanSeen costScaleMin3"
    "fgt (fdiv (ofSize (nanSeen costScaleMin3 + 1))
            (ofSize (nanSeen costScaleMin3 + 1 + noNanSeen costScaleMin3)))
       (costScaleNanTolerance costScaleMin3)"
    "fgt (costScaleFactor costScaleMin3) (costScaleFactorMinimum costScaleMin3)"
    by (simp_all add: costScaleMin3_def float_eval)
  have q: "fdiv (costScaleFactor costScaleMin3) (costScaleMultiplier costScaleMin3)
      = Finite False (2 * 2 ^ 149)"
    by (simp add: costScaleMin3_def float_eval)
  have "decreaseCostScaleFactor costScaleMin3
      = costScaleMin3\<lparr>costScaleFactor := Finite False (2 * 2 ^ 149)\<rparr>"
    using decrease_above_threshold [OF h] q by (simp add: costScaleMin3_def)
  moreover have "\<not> fgt (costScaleFactorMinimum costScaleMin3) (costScaleFactor costScaleMin3)"
    "fgt (costScaleFactorMinimum costScaleMin3) (Finite False (2 * 2 ^ 149))"
    by (simp_all add: costScaleMin3_def signedUnits_def)
  ultimately show ?thesis by simp
qed

text \<open>
  C2. With cost scaling on, in binary32 as the code computes: an increase whose count
  of clean updates, after its increment, is a multiple of the frequency multiplies
  the factor and sets both counters to 0; an increase that is not due adds one to
  \<^verbatim>\<open>noNanSeen_\<close> and changes nothing else. A decrease whose threshold holds (enough
  updates, and \<^verbatim>\<open>(float)nanSeen_ / (float)total\<close> above the tolerance) sets both
  counters to 0, after dividing the factor when it is above the minimum; a decrease
  whose threshold does not hold adds one to \<^verbatim>\<open>nanSeen_\<close> and changes nothing else.
\<close>

theorem counters_reset_with_factor:
  assumes "costScale s"
  shows "(costScaleFreq s \<noteq> 0 \<and> (noNanSeen s + 1) mod costScaleFreq s = 0 \<longrightarrow>
            increaseCostScaleFactor s =
              Inr (s\<lparr>costScaleFactor := fmul (costScaleFactor s) (costScaleMultiplier s),
                     noNanSeen := 0, nanSeen := 0\<rparr>))
       \<and> (costScaleFreq s \<noteq> 0 \<and> (noNanSeen s + 1) mod costScaleFreq s \<noteq> 0 \<longrightarrow>
            increaseCostScaleFactor s = Inr (s\<lparr>noNanSeen := noNanSeen s + 1\<rparr>))
       \<and> (costScaleNanRange s \<le> nanSeen s + 1 + noNanSeen s
            \<and> fgt (fdiv (ofSize (nanSeen s + 1)) (ofSize (nanSeen s + 1 + noNanSeen s)))
                 (costScaleNanTolerance s) \<longrightarrow>
            decreaseCostScaleFactor s =
              s\<lparr>costScaleFactor :=
                   (if fgt (costScaleFactor s) (costScaleFactorMinimum s)
                    then fdiv (costScaleFactor s) (costScaleMultiplier s)
                    else costScaleFactor s),
                noNanSeen := 0, nanSeen := 0\<rparr>)
       \<and> (\<not> (costScaleNanRange s \<le> nanSeen s + 1 + noNanSeen s
               \<and> fgt (fdiv (ofSize (nanSeen s + 1)) (ofSize (nanSeen s + 1 + noNanSeen s)))
                    (costScaleNanTolerance s)) \<longrightarrow>
            decreaseCostScaleFactor s = s\<lparr>nanSeen := nanSeen s + 1\<rparr>)"
  using assms
  by (simp add: increaseCostScaleFactor_def decreaseCostScaleFactor_def Let_def)

theorem counters_reset_with_factor_witness:
  "increaseCostScaleFactor (costScaleDefault\<lparr>noNanSeen := 1999, nanSeen := 3\<rparr>)
     = Inr (costScaleDefault\<lparr>costScaleFactor := Finite False (256 * 2 ^ 149)\<rparr>)
   \<and> increaseCostScaleFactor (costScaleDefault\<lparr>nanSeen := 3\<rparr>)
     = Inr (costScaleDefault\<lparr>noNanSeen := 1, nanSeen := 3\<rparr>)
   \<and> decreaseCostScaleFactor costScaleMin3
     = costScaleMin3\<lparr>costScaleFactor := Finite False (2 * 2 ^ 149)\<rparr>
   \<and> decreaseCostScaleFactor costScaleSixOfNine = costScaleSixOfNine\<lparr>nanSeen := 7\<rparr>"
proof -
  let ?due = "costScaleDefault\<lparr>noNanSeen := 1999, nanSeen := 3\<rparr>"
  let ?early = "costScaleDefault\<lparr>nanSeen := 3\<rparr>"
  have a: "costScale ?due"
    "costScaleFreq ?due \<noteq> 0 \<and> (noNanSeen ?due + 1) mod costScaleFreq ?due = 0"
    "fmul (costScaleFactor ?due) (costScaleMultiplier ?due) = Finite False (256 * 2 ^ 149)"
    by (simp_all add: costScaleDefault_def float_eval)
  have b: "costScale ?early"
    "costScaleFreq ?early \<noteq> 0 \<and> (noNanSeen ?early + 1) mod costScaleFreq ?early \<noteq> 0"
    by (simp_all add: costScaleDefault_def)
  have c: "costScale costScaleMin3"
    "costScaleNanRange costScaleMin3 \<le> nanSeen costScaleMin3 + 1 + noNanSeen costScaleMin3
       \<and> fgt (fdiv (ofSize (nanSeen costScaleMin3 + 1))
                (ofSize (nanSeen costScaleMin3 + 1 + noNanSeen costScaleMin3)))
            (costScaleNanTolerance costScaleMin3)"
    "fgt (costScaleFactor costScaleMin3) (costScaleFactorMinimum costScaleMin3)"
    "fdiv (costScaleFactor costScaleMin3) (costScaleMultiplier costScaleMin3)
       = Finite False (2 * 2 ^ 149)"
    by (simp_all add: costScaleMin3_def float_eval)
  have d: "costScale costScaleSixOfNine"
    "\<not> (costScaleNanRange costScaleSixOfNine
            \<le> nanSeen costScaleSixOfNine + 1 + noNanSeen costScaleSixOfNine
         \<and> fgt (fdiv (ofSize (nanSeen costScaleSixOfNine + 1))
                  (ofSize (nanSeen costScaleSixOfNine + 1 + noNanSeen costScaleSixOfNine)))
              (costScaleNanTolerance costScaleSixOfNine))"
    "nanSeen costScaleSixOfNine + 1 = 7"
    by (simp_all add: costScaleSixOfNine_def costScaleDefault_def float_eval)
  from counters_reset_with_factor [OF a(1)] a(2,3)
  have 1: "increaseCostScaleFactor ?due
     = Inr (costScaleDefault\<lparr>costScaleFactor := Finite False (256 * 2 ^ 149)\<rparr>)"
    by (simp add: costScaleDefault_def)
  from counters_reset_with_factor [OF b(1)] b(2)
  have 2: "increaseCostScaleFactor ?early = Inr (costScaleDefault\<lparr>noNanSeen := 1, nanSeen := 3\<rparr>)"
    by (simp add: costScaleDefault_def)
  from counters_reset_with_factor [OF c(1)] c(2,3,4)
  have 3: "decreaseCostScaleFactor costScaleMin3
     = costScaleMin3\<lparr>costScaleFactor := Finite False (2 * 2 ^ 149)\<rparr>"
    by (simp add: costScaleMin3_def)
  from counters_reset_with_factor [OF d(1)] d(2,3)
  have 4: "decreaseCostScaleFactor costScaleSixOfNine = costScaleSixOfNine\<lparr>nanSeen := 7\<rparr>"
    by simp
  from 1 2 3 4 show ?thesis by simp
qed

section \<open>Properties of the normalization factor\<close>

text \<open>
  C3. Without dynamic gradient scaling, \<^verbatim>\<open>computeNormalizationFactor\<close> returns, for
  every gradient norm (finite or not), every number of target words and every C
  library, the binary32 product of the cost-scale factor and the converted number of
  words, where a term whose feature is off is \<^verbatim>\<open>1.f\<close>. The member
  \<^verbatim>\<open>costScaleFactor_\<close> is taken to hold a binary32 value, as it does after every update.
\<close>

theorem computeNormalizationFactor_static:
  assumes "\<not> dynamicGradientScaling dyn" and "isFloat (costScaleFactor cs)"
  shows "computeNormalizationFactor lib cs dyn normalizeGradient sched gNorm updateTrgWords
    = Inr (fmul (if costScale cs then costScaleFactor cs else float_one)
                (if normalizeGradient then ofSize updateTrgWords else float_one))"
  using assms
  by (simp add: computeNormalizationFactor_def Let_def fmul_one_left fmul_one_right isFloat_one)

theorem computeNormalizationFactor_static_witness:
  "computeNormalizationFactor idleLib costScaleLongFactor noDynamicScaling True None
       (Finite False (3 * 2 ^ 149)) 3
     = Inr (Finite False (3460301 * 2 ^ 136))
   \<and> computeNormalizationFactor idleLib costScaleLongFactor noDynamicScaling False None NaN 500
     = Inr (Finite False (9227469 * 2 ^ 133))
   \<and> computeNormalizationFactor idleLib (costScaleLongFactor\<lparr>costScale := False\<rparr>)
       noDynamicScaling True None NaN 16777217
     = Inr (Finite False (16777216 * 2 ^ 149))"
proof -
  have h: "\<not> dynamicGradientScaling noDynamicScaling"
    by (simp add: noDynamicScaling_def)
  have f: "isFloat (costScaleFactor costScaleLongFactor)"
    "isFloat (costScaleFactor (costScaleLongFactor\<lparr>costScale := False\<rparr>))"
    by (simp_all add: costScaleLongFactor_def ulpExponent_def bitLength.simps)
  have v: "costScale costScaleLongFactor"
    "costScaleFactor costScaleLongFactor = Finite False (9227469 * 2 ^ 133)"
    by (simp_all add: costScaleLongFactor_def costScaleDefault_def)
  have w: "isFloat (Finite False (9227469 * 2 ^ 133))"
    "isFloat (Finite False (16777216 * 2 ^ 149))"
    by (simp_all add: ulpExponent_def bitLength.simps)
  from computeNormalizationFactor_static [OF h f(1), of idleLib True None "Finite False (3 * 2 ^ 149)" 3]
    v long_factor_times_three
  have 1: "computeNormalizationFactor idleLib costScaleLongFactor noDynamicScaling True None
       (Finite False (3 * 2 ^ 149)) 3 = Inr (Finite False (3460301 * 2 ^ 136))"
    by simp
  from computeNormalizationFactor_static [OF h f(1), of idleLib False None NaN 500] v
    fmul_one_right [OF w(1)]
  have 2: "computeNormalizationFactor idleLib costScaleLongFactor noDynamicScaling False None NaN 500
     = Inr (Finite False (9227469 * 2 ^ 133))"
    by simp
  from computeNormalizationFactor_static [OF h f(2), of idleLib True None NaN 16777217]
    ofSize_rounds fmul_one_left [OF w(2)]
  have 3: "computeNormalizationFactor idleLib (costScaleLongFactor\<lparr>costScale := False\<rparr>)
       noDynamicScaling True None NaN 16777217 = Inr (Finite False (16777216 * 2 ^ 149))"
    by simp
  from 1 2 3 show ?thesis by simp
qed

section \<open>Properties of loading and restoring\<close>

text \<open>
  C4. The code does not do what the claim and the comment at the head of
  \<^verbatim>\<open>GraphGroup::load\<close> say: the branch for the pretrained model lies inside the branch
  for \<^verbatim>\<open>!no-reload\<close>. With \<^verbatim>\<open>no-reload\<close> set and a pretrained model given, \<open>load\<close>
  returns without a single call: no weights are loaded into the two replicas.
\<close>

theorem load_no_reload_ignores_pretrained:
  "opt_no_reload (options twoReplicas)
   \<and> opt_pretrained_model (options twoReplicas) = Some ''pre.npz''
   \<and> length (graphs twoReplicas) = 2
   \<and> load twoReplicas (diskWith []) [] = Inr []"
  by (simp add: load_def twoReplicas_def)

lemma load_no_reload: "opt_no_reload (options grp) \<Longrightarrow> load grp fs tr = Inr tr"
  by (simp add: load_def)

lemma load_reload_uses_pretrained:
  "load (twoReplicas\<lparr>options := (options twoReplicas)\<lparr>opt_no_reload := False\<rparr>\<rparr>) emptyDisk []
     = Inr [LogInfo ''[training] Initializing model weights with pre-trained model pre.npz'',
            ModelLoad 0 ''pre.npz'' (Some False), ModelLoad 1 ''pre.npz'' (Some False)]"
  by (simp add: load_def twoReplicas_def emptyDisk_def)

lemma restoreGraphs_first_mismatch:
  "paramsShape g \<noteq> itemShape m \<Longrightarrow>
     restoreGraphs i (g # gs) m tr = Inl (ShapeMismatch, tr @ [GraphForward i])"
  by (simp add: Let_def)

text \<open>
  C6. Let the checkpoint exist and hold an item \<^verbatim>\<open>master_parameters\<close> whose shape
  differs from the shape of the parameters of the replicas, and let there be at
  least one replica and one optimizer shard. Then \<^verbatim>\<open>restoreFromCheckpoint\<close> aborts
  with the shape mismatch after the optimizer has loaded its state and the first
  graph has run forward: no \<open>ParamsSet\<close> has happened, on no replica.
\<close>

theorem restoreFromCheckpoint_shape_mismatch:
  assumes "fs (opt_model (options grp) @ ''.optimizer.npz'') = Some items"
    and "find (\<lambda>item. itemName item = ''master_parameters'') items = Some masterParameters"
    and "optimizerShards grp \<noteq> []" and "graphs grp \<noteq> []"
    and "\<forall>g \<in> set (graphs grp). paramsShape g \<noteq> itemShape masterParameters"
  shows "restoreFromCheckpoint grp fs tr =
     Inl (ShapeMismatch,
          tr @ [OptimizerLoad 0 items (length (optimizerShards grp)) (length (graphs grp)),
                GraphForward 0])"
proof -
  from assms(4) obtain g gs where gs: "graphs grp = g # gs" by (cases "graphs grp") auto
  with assms(5) have "paramsShape g \<noteq> itemShape masterParameters" by simp
  then have "restoreGraphs 0 (graphs grp) masterParameters tr' = Inl (ShapeMismatch, tr' @ [GraphForward 0])" for tr'
    unfolding gs by (rule restoreGraphs_first_mismatch)
  with assms(1,2,3) show ?thesis
    by (simp add: restoreFromCheckpoint_def Let_def split: list.splits)
qed

lemma find_master:
  "find (\<lambda>item. itemName item = ''master_parameters'') [adamItem, masterItem shape]
     = Some (masterItem shape)"
  by (simp add: adamItem_def masterItem_def)

theorem restoreFromCheckpoint_shape_mismatch_witness:
  "restoreFromCheckpoint twoReplicas (diskWith [adamItem, masterItem [1, 999]]) [] =
     Inl (ShapeMismatch, [OptimizerLoad 0 [adamItem, masterItem [1, 999]] 2 2, GraphForward 0])"
proof -
  have h1: "diskWith [adamItem, masterItem [1, 999]] (opt_model (options twoReplicas) @ ''.optimizer.npz'')
      = Some [adamItem, masterItem [1, 999]]"
    by (simp add: twoReplicas_def diskWith_def)
  have h2: "find (\<lambda>item. itemName item = ''master_parameters'') [adamItem, masterItem [1, 999]]
      = Some (masterItem [1, 999])"
    by (rule find_master)
  have h3: "optimizerShards twoReplicas \<noteq> []" "graphs twoReplicas \<noteq> []"
    by (simp_all add: twoReplicas_def)
  have h4: "\<forall>g \<in> set (graphs twoReplicas). paramsShape g \<noteq> itemShape (masterItem [1, 999])"
    by (simp add: twoReplicas_def masterItem_def)
  have l: "length (optimizerShards twoReplicas) = 2" "length (graphs twoReplicas) = 2"
    by (simp_all add: twoReplicas_def)
  show ?thesis
    using restoreFromCheckpoint_shape_mismatch
      [where fs = "diskWith [adamItem, masterItem [1, 999]]" and grp = twoReplicas and tr = "[]",
       OF h1 h2 h3 h4]
    unfolding l by simp
qed

text \<open>
  C7. When the checkpoint file is missing, \<^verbatim>\<open>restoreFromCheckpoint\<close> logs a warning and
  returns. When the file exists but holds no item \<^verbatim>\<open>master_parameters\<close>, it lets the
  optimizer load its state, logs a warning and returns. In both cases it does not
  abort and touches no graph: no \<open>GraphForward\<close>, no \<open>ParamsSet\<close>.
\<close>

theorem restoreFromCheckpoint_missing_parts:
  "(fs (opt_model (options grp) @ ''.optimizer.npz'') = None \<longrightarrow>
      restoreFromCheckpoint grp fs tr =
        Inr (tr @ [LogWarn ''No checkpoint found, parameters reloaded from last inference model'']))
   \<and> (fs (opt_model (options grp) @ ''.optimizer.npz'') = Some items
        \<and> find (\<lambda>item. itemName item = ''master_parameters'') items = None
        \<and> optimizerShards grp \<noteq> [] \<longrightarrow>
      restoreFromCheckpoint grp fs tr =
        Inr (tr @ [OptimizerLoad 0 items (length (optimizerShards grp)) (length (graphs grp)),
                   LogWarn ''No master parameters found in checkpoint, parameters reloaded from last inference model'']))"
  by (simp add: restoreFromCheckpoint_def Let_def split: list.splits)

theorem restoreFromCheckpoint_missing_parts_witness:
  "restoreFromCheckpoint twoReplicas emptyDisk [] =
     Inr [LogWarn ''No checkpoint found, parameters reloaded from last inference model'']
   \<and> restoreFromCheckpoint twoReplicas (diskWith [adamItem]) [] =
     Inr [OptimizerLoad 0 [adamItem] 2 2,
          LogWarn ''No master parameters found in checkpoint, parameters reloaded from last inference model'']"
proof -
  have a: "emptyDisk (opt_model (options twoReplicas) @ ''.optimizer.npz'') = None"
    by (simp add: emptyDisk_def)
  have b: "diskWith [adamItem] (opt_model (options twoReplicas) @ ''.optimizer.npz'') = Some [adamItem]
      \<and> find (\<lambda>item. itemName item = ''master_parameters'') [adamItem] = None
      \<and> optimizerShards twoReplicas \<noteq> []"
    by (simp add: twoReplicas_def diskWith_def adamItem_def)
  have l: "length (optimizerShards twoReplicas) = 2" "length (graphs twoReplicas) = 2"
    by (simp_all add: twoReplicas_def)
  from restoreFromCheckpoint_missing_parts [of emptyDisk twoReplicas "[]"] a
    restoreFromCheckpoint_missing_parts [of "diskWith [adamItem]" twoReplicas "[]" "[adamItem]"] b
  show ?thesis unfolding l by simp
qed

section \<open>Properties of saving and swapping\<close>

text \<open>
  C5 as stated fails: on the final save without \<^verbatim>\<open>overwrite\<close> no snapshot with the
  number of batches is written, only the model file and the scheduler state.
\<close>

theorem saveModel_final_writes_no_snapshot:
  "\<not> opt_overwrite (options twoReplicas)
   \<and> saveModel twoReplicas True []
       = Inr [ModelSave 0 ''model.npz'' (Some True), SchedulerSave ''model.npz'']"
  by (simp add: saveModel_def twoReplicas_def Let_def)

lemma replace_extension:
  assumes "length base + 4 < 2 ^ 64"
  shows "string_replace (base @ ''.npz'') (unat ((word_of_nat (length (base @ ''.npz'')) :: size_t) - 4)) 4 str
    = Some (base @ str)"
proof -
  have "(word_of_nat (length (base @ ''.npz'')) :: size_t) - 4 = word_of_nat (length base)"
    by simp
  moreover have "unat (word_of_nat (length base) :: size_t) = length base"
    using assms by (simp add: unat_of_nat)
  ultimately show ?thesis by (simp add: string_replace_def)
qed

text \<open>
  C5, amended. Let the model path be \<open>base.npz\<close>. On a save that is not final and not
  in overwrite mode, \<^verbatim>\<open>saveModel\<close> first writes a snapshot to \<open>base.iterN.npz\<close>, where
  \<open>N\<close> is the scheduler's number of batches (\<open>unknown\<close> without a scheduler); on a
  final save and in overwrite mode it writes no snapshot. Then, in every mode and on
  every save, it writes the model file with the translator configuration and, when
  there is a scheduler, saves the scheduler state under the model path.
\<close>

theorem saveModel_trace:
  assumes "models grp \<noteq> []" and "graphs grp \<noteq> []"
    and "opt_model (options grp) = base @ ''.npz''" and "length base + 4 < 2 ^ 64"
  shows "saveModel grp isFinal tr =
     Inr (tr
          @ (if \<not> opt_overwrite (options grp) \<and> \<not> isFinal
             then [ModelSave 0 (base @ ''.iter''
                     @ (case scheduler grp of
                          Some sch \<Rightarrow> to_string (unat (numberOfBatches sch))
                        | None \<Rightarrow> ''unknown'')
                     @ ''.npz'') None]
             else [])
          @ [ModelSave 0 (base @ ''.npz'') (Some True)]
          @ (if scheduler grp \<noteq> None then [SchedulerSave (base @ ''.npz'')] else []))"
proof -
  have rep: "string_replace (base @ ''.npz'')
      (unat ((word_of_nat (length (base @ ''.npz'')) :: size_t) - 4)) 4 str = Some (base @ str)" for str
    using assms(4) by (rule replace_extension)
  show ?thesis
    unfolding saveModel_def Let_def assms(3) rep
    using assms(1,2) by simp
qed

lemma to_string_1500: "to_string 1500 = ''1500''"
  by (simp add: to_string.simps)

theorem saveModel_trace_witness:
  "saveModel twoReplicas False []
     = Inr [ModelSave 0 ''model.iter1500.npz'' None,
            ModelSave 0 ''model.npz'' (Some True), SchedulerSave ''model.npz'']"
proof -
  have h: "models twoReplicas \<noteq> []" "graphs twoReplicas \<noteq> []"
    "opt_model (options twoReplicas) = ''model'' @ ''.npz''"
    "length ''model'' + 4 < (2::nat) ^ 64"
    by (simp_all add: twoReplicas_def)
  have s: "scheduler twoReplicas \<noteq> None" "\<not> opt_overwrite (options twoReplicas)"
    "(case scheduler twoReplicas of Some sch \<Rightarrow> to_string (unat (numberOfBatches sch))
        | None \<Rightarrow> ''unknown'') = ''1500''"
    by (simp_all add: twoReplicas_def to_string_1500)
  show ?thesis
    using saveModel_trace [OF h, of False "[]"] s by simp
qed

text \<open>
  C8. \<^verbatim>\<open>swapWithSmoothed\<close> and \<^verbatim>\<open>swapWithOriginal\<close> compare the number of graphs with
  the number of optimizer shards first; when they differ, both abort with the trace
  as it was: no swap on any replica, no distribution.
\<close>

theorem swap_aborts_on_count_mismatch:
  assumes "length gs \<noteq> length opts"
  shows "swapWithSmoothed gs opts tr = Inl (CountMismatch, tr)
       \<and> swapWithOriginal gs opts tr = Inl (CountMismatch, tr)"
  using assms by (simp add: swapWithSmoothed_def swapWithOriginal_def)

theorem swap_aborts_on_count_mismatch_witness:
  "length (graphs twoReplicas) \<noteq> length [0::nat]
   \<and> swapWithSmoothed (graphs twoReplicas) [0] [] = Inl (CountMismatch, [])
   \<and> swapWithOriginal (graphs twoReplicas) [0] [] = Inl (CountMismatch, [])"
proof -
  have h: "length (graphs twoReplicas) \<noteq> length [0::nat]"
    by (simp add: twoReplicas_def)
  from h swap_aborts_on_count_mismatch [OF h, of "[]"] show ?thesis by simp
qed

lemma swapEach_trace:
  "swapEach i n swapAvg gs tr = tr @ map (\<lambda>j. OptimizerSwap j j n swapAvg) [i ..< i + length gs]"
proof (induction gs arbitrary: i tr)
  case Nil
  then show ?case by simp
next
  case (Cons g gs)
  have "[i ..< i + length (g # gs)] = i # [Suc i ..< Suc i + length gs]"
    by (simp add: upt_rec)
  with Cons.IH [of "Suc i"] show ?case by simp
qed

lemma swap_with_equal_counts:
  assumes "length gs = length opts"
  shows "swapWithSmoothed gs opts tr
      = Inr (tr @ map (\<lambda>j. OptimizerSwap j j (length gs) True) [0 ..< length gs] @ [Distribute])"
    and "swapWithOriginal gs opts tr
      = Inr (tr @ map (\<lambda>j. OptimizerSwap j j (length gs) False) [0 ..< length gs] @ [Distribute])"
  using assms by (simp_all add: swapWithSmoothed_def swapWithOriginal_def swapEach_trace)

section \<open>Properties of the probe\<close>

lemma doubling_returns:
  "\<not> fits (calls + k) lengths (maxBatch * 2 ^ k)
     \<Longrightarrow> \<exists>r. collectStats_doubling fits lengths calls maxBatch = Some r"
proof (induction k arbitrary: calls maxBatch)
  case 0
  then show ?case by (subst collectStats_doubling.simps) simp
next
  case (Suc k)
  show ?case
  proof (cases "fits calls lengths maxBatch")
    case True
    from Suc.prems have "\<not> fits (Suc calls + k) lengths (maxBatch * 2 * 2 ^ k)"
      by (simp add: mult.assoc)
    from Suc.IH [OF this] True show ?thesis
      by (subst collectStats_doubling.simps) simp
  next
    case False
    then show ?thesis by (subst collectStats_doubling.simps) simp
  qed
qed

lemma search_returns_aux:
  assumes step: "1 \<le> step"
  shows "unat end - unat start = d \<Longrightarrow> unat start + 2 \<le> unat end \<Longrightarrow> unat end \<le> 2 ^ 63
     \<Longrightarrow> \<exists>calls' stats' start'.
           collectStats_search fits step lengths calls stats start end = Some (calls', stats', start')
           \<and> start \<le> start' \<and> start' \<le> end"
proof (induction d arbitrary: start "end" calls stats rule: less_induct)
  case (less d)
  define s where "s = unat start"
  define e where "e = unat end"
  define current where "current = (start + end) div 2"
  have se: "s + 2 \<le> e" "e \<le> 2 ^ 63" using less.prems by (simp_all add: s_def e_def)
  have sum: "unat (start + end) = s + e"
    unfolding s_def e_def using less.prems by (simp add: unat_word_ariths)
  have c: "unat current = (s + e) div 2"
    by (simp add: current_def unat_div sum)
  have c1: "unat (current + 1) = (s + e) div 2 + 1"
    using c se by (simp add: unat_word_ariths)
  have c2: "unat (current - 1) = (s + e) div 2 - 1"
    using c se by (simp add: unat_minus_one unat_eq_zero [symmetric])
  have step1: "1 \<le> unat step" using step by (simp add: word_le_nat_alt)
  show ?case
  proof (cases "fits calls lengths current")
    case True
    have le: "current + 1 \<le> end" using c1 se by (simp add: word_le_nat_alt e_def [symmetric])
    have ge: "start \<le> current + 1" using c1 se by (simp add: word_le_nat_alt s_def [symmetric])
    have diff: "unat (end - (current + 1)) = e - ((s + e) div 2 + 1)"
      using le c1 by (simp add: unat_sub e_def)
    show ?thesis
    proof (cases "step < end - (current + 1)")
      case go: True
      then have "unat step < e - ((s + e) div 2 + 1)" using diff by (simp add: word_less_nat_alt)
      with step1 have big: "unat (current + 1) + 2 \<le> unat end"
        using c1 by (simp add: e_def)
      have "unat end - unat (current + 1) < d"
        using less.prems(1) c1 se by (simp add: s_def e_def)
      from less.IH [OF this refl big less.prems(3)] obtain calls' stats' start'
        where "collectStats_search fits step lengths (Suc calls) (stats @ [(lengths, current)]) (current + 1) end
                 = Some (calls', stats', start')" "current + 1 \<le> start'" "start' \<le> end"
        by blast
      with True go ge show ?thesis
        by (subst collectStats_search.simps) (auto simp: Let_def current_def [symmetric])
    next
      case False
      with True le ge show ?thesis
        by (subst collectStats_search.simps) (auto simp: Let_def current_def [symmetric])
    qed
  next
    case nofit: False
    have ge: "start \<le> current - 1" using c2 se by (simp add: word_le_nat_alt s_def [symmetric])
    have le: "start \<le> end" using se by (simp add: word_le_nat_alt s_def e_def)
    have diff: "unat (current - 1 - start) = (s + e) div 2 - 1 - s"
      using ge c2 by (simp add: unat_sub s_def)
    show ?thesis
    proof (cases "step < current - 1 - start")
      case go: True
      then have "unat step < (s + e) div 2 - 1 - s" using diff by (simp add: word_less_nat_alt)
      with step1 have big: "unat start + 2 \<le> unat (current - 1)"
        using c2 by (simp add: s_def)
      have small: "unat (current - 1) \<le> 2 ^ 63" using c2 se by simp
      have "unat (current - 1) - unat start < d"
        using less.prems(1) c2 se by (simp add: s_def e_def)
      from less.IH [OF this refl big small] obtain calls' stats' start'
        where "collectStats_search fits step lengths (Suc calls) stats start (current - 1)
                 = Some (calls', stats', start')" "start \<le> start'" "start' \<le> current - 1"
        by blast
      moreover have "current - 1 \<le> end" using c2 se by (simp add: word_le_nat_alt e_def [symmetric])
      ultimately show ?thesis using nofit go
        by (subst collectStats_search.simps) (auto simp: Let_def current_def [symmetric])
    next
      case False
      with nofit le show ?thesis
        by (subst collectStats_search.simps) (auto simp: Let_def current_def [symmetric])
    qed
  qed
qed

lemma doubling_needs_refusal:
  assumes "collectStats_doubling fits lengths calls maxBatch = Some r"
  shows "\<exists>k. \<not> fits (calls + k) lengths (maxBatch * 2 ^ k)"
proof (rule collectStats_doubling.raw_induct
    [where P = "\<lambda>fits lengths calls maxBatch r. \<exists>k. \<not> fits (calls + k) lengths (maxBatch * 2 ^ k)",
     OF _ assms])
  fix doubling fits lengths calls maxBatch and r :: "nat \<times> size_t"
  assume IH: "\<And>fits lengths calls maxBatch r. doubling fits lengths calls maxBatch = Some r
      \<Longrightarrow> \<exists>k. \<not> fits (calls + k) lengths (maxBatch * 2 ^ k)"
    and eq: "(if fits calls lengths maxBatch
        then doubling fits lengths (Suc calls) (maxBatch * 2)
        else Some (Suc calls, maxBatch)) = Some r"
  show "\<exists>k. \<not> fits (calls + k) lengths (maxBatch * 2 ^ k)"
  proof (cases "fits calls lengths maxBatch")
    case True
    with eq have "doubling fits lengths (Suc calls) (maxBatch * 2) = Some r" by simp
    from IH [OF this] obtain k
      where "\<not> fits (Suc calls + k) lengths (maxBatch * 2 * 2 ^ k)" by blast
    then have "\<not> fits (calls + Suc k) lengths (maxBatch * 2 ^ Suc k)"
      by (simp add: mult.assoc)
    then show ?thesis by blast
  next
    case False
    then have "\<not> fits (calls + 0) lengths (maxBatch * 2 ^ 0)" by simp
    then show ?thesis by blast
  qed
qed

lemma probe_always_fits:
  "collectStats_doubling (\<lambda>calls lengths size. True) lengths calls maxBatch = None"
proof (cases "collectStats_doubling (\<lambda>calls lengths size. True) lengths calls maxBatch")
  case None then show ?thesis .
next
  case (Some r)
  from doubling_needs_refusal [OF this] show ?thesis by simp
qed

text \<open>
  C9 as stated fails: when every batch fits, the doubling loop never ends.
\<close>

theorem collectStats_probe_runs_forever:
  "collectStats_probe (\<lambda>calls lengths size. True) 1 1 [1] = None"
  by (simp add: collectStats_probe_def probe_always_fits)

text \<open>
  C9, amended. The doubling loop returns if and only if one of its probes is answered
  with "does not fit". The search of one length returns, for every oracle and every
  step of at least 1, when it is entered with an upper bound \<^verbatim>\<open>maxBatch\<close> between 3
  and \<open>2^63\<close>, and the lower bound it returns lies between 1 and \<^verbatim>\<open>maxBatch\<close>.
\<close>

theorem collectStats_phases_return:
  "((\<exists>r. collectStats_doubling fits lengths calls maxBatch = Some r)
      \<longleftrightarrow> (\<exists>k. \<not> fits (calls + k) lengths (maxBatch * 2 ^ k)))
   \<and> (1 \<le> step \<and> 3 \<le> maxBatch \<and> maxBatch \<le> 2 ^ 63 \<longrightarrow>
        (\<exists>calls' stats' start'.
           collectStats_search fits step lengths calls stats 1 maxBatch = Some (calls', stats', start')
           \<and> 1 \<le> start' \<and> start' \<le> maxBatch))"
proof (intro conjI impI)
  show "(\<exists>r. collectStats_doubling fits lengths calls maxBatch = Some r)
      \<longleftrightarrow> (\<exists>k. \<not> fits (calls + k) lengths (maxBatch * 2 ^ k))"
    using doubling_returns doubling_needs_refusal by blast
next
  assume h: "1 \<le> step \<and> 3 \<le> maxBatch \<and> maxBatch \<le> 2 ^ 63"
  from h have "unat (1 :: size_t) + 2 \<le> unat maxBatch" "unat maxBatch \<le> 2 ^ 63"
    by (simp_all add: word_le_nat_alt)
  with h search_returns_aux [of step maxBatch 1 _ fits lengths calls stats]
  show "\<exists>calls' stats' start'.
           collectStats_search fits step lengths calls stats 1 maxBatch = Some (calls', stats', start')
           \<and> 1 \<le> start' \<and> start' \<le> maxBatch"
    by simp
qed

theorem collectStats_phases_return_witness:
  "(\<exists>r. collectStats_doubling (\<lambda>calls lengths size. size \<le> 64) [8] 0 512 = Some r)
   \<and> (\<exists>calls' stats' start'.
         collectStats_search (\<lambda>calls lengths size. size \<le> 64) 8 [8] 0 [] 1 512
           = Some (calls', stats', start')
         \<and> 1 \<le> start' \<and> start' \<le> 512)"
proof -
  have a: "\<not> (512 * 2 ^ 0 :: size_t) \<le> 64" by simp
  then have a': "\<exists>k. \<not> (512 * 2 ^ k :: size_t) \<le> 64" by (rule exI)
  have b: "(1 :: size_t) \<le> 8 \<and> (3 :: size_t) \<le> 512 \<and> (512 :: size_t) \<le> 2 ^ 63"
    by (simp add: word_le_nat_alt)
  from collectStats_phases_return
    [of "\<lambda>calls lengths size. size \<le> 64" "[8]" 0 512 8 "[]"] a' b
  show ?thesis by simp
qed

text \<open>
  Below that range the differences \<^verbatim>\<open>end - start\<close> and \<^verbatim>\<open>current - 1\<close> wrap around. A
  search that is entered with \<^verbatim>\<open>maxBatch = 1\<close> never returns, whatever the answers
  are, and a length whose probes all fail leaves exactly this bound to the next one.
  So the probe of a workspace that holds fewer than 8 sentences, with step 8 and
  two lengths, runs forever.
\<close>

lemma search_wrapped_never_returns:
  assumes "collectStats_search fits step lengths calls stats start end = Some r"
  shows "\<not> (step < - 2 \<and> (start, end) \<in> {(1, 1), (2, 1), (2, 0), (1, 0), (1, - 1)})"
proof (rule collectStats_search.raw_induct
    [where P = "\<lambda>fits step lengths calls stats start end r.
        \<not> (step < - 2 \<and> (start, end) \<in> {(1, 1), (2, 1), (2, 0), (1, 0), (1, - 1)})",
     OF _ assms])
  fix search fits step lengths calls stats start "end" and r :: "nat \<times> stats \<times> size_t"
  assume IH: "\<And>fits step lengths calls stats start end r.
      search fits step lengths calls stats start end = Some r
        \<Longrightarrow> \<not> (step < - 2 \<and> (start, end) \<in> {(1, 1), (2, 1), (2, 0), (1, 0), (1, - 1)})"
    and eq: "(let current = (start + end) div 2;
          ok = fits calls lengths current;
          stats' = (if ok then stats @ [(lengths, current)] else stats);
          start' = (if ok then current + 1 else start);
          end' = (if ok then end else current - 1)
      in
      if step < end' - start'
      then search fits step lengths (Suc calls) stats' start' end'
      else Some (Suc calls, stats', start')) = Some r"
  show "\<not> (step < - 2 \<and> (start, end) \<in> {(1, 1), (2, 1), (2, 0), (1, 0), (1, - 1)})"
  proof
    assume bad: "step < - 2 \<and> (start, end) \<in> {(1, 1), (2, 1), (2, 0), (1, 0), (1, - 1)}"
    then have step2: "step < - 2" by simp
    have "(- 2 :: size_t) < - 1" by simp
    with step2 have step1: "step < - 1" by (rule order.strict_trans)
    note step = step2 step1
    have ar: "(1 + 1 :: size_t) div 2 = 1" "(2 + 1 :: size_t) div 2 = 1" "(2 + 0 :: size_t) div 2 = 1"
      "(1 + 0 :: size_t) div 2 = 0" "(1 + - 1 :: size_t) div 2 = 0"
      "(1 :: size_t) - 2 = - 1" "(0 :: size_t) - 2 = - 2" "(0 :: size_t) - 1 = - 1"
      "(- 1 :: size_t) - 1 = - 2" "(1 :: size_t) + 1 = 2" "(1 :: size_t) - 1 = 0"
      by simp_all
    from bad consider "start = 1 \<and> end = 1" | "start = 2 \<and> end = 1" | "start = 2 \<and> end = 0"
      | "start = 1 \<and> end = 0" | "start = 1 \<and> end = - 1"
      by auto
    then have "\<exists>calls' stats' start' end'. search fits step lengths calls' stats' start' end' = Some r
        \<and> (start', end') \<in> {(1, 1), (2, 1), (2, 0), (1, 0), (1, - 1)}"
    proof cases
      case 1
      with eq step show ?thesis by (cases "fits calls lengths 1") (auto simp: Let_def ar)
    next
      case 2
      with eq step show ?thesis by (cases "fits calls lengths 1") (auto simp: Let_def ar)
    next
      case 3
      with eq step show ?thesis by (cases "fits calls lengths 1") (auto simp: Let_def ar)
    next
      case 4
      with eq step show ?thesis by (cases "fits calls lengths 0") (auto simp: Let_def ar)
    next
      case 5
      with eq step show ?thesis by (cases "fits calls lengths 0") (auto simp: Let_def ar)
    qed
    then obtain calls' stats' start' end'
      where "search fits step lengths calls' stats' start' end' = Some r"
        and "(start', end') \<in> {(1, 1), (2, 1), (2, 0), (1, 0), (1, - 1)}" by blast
    from IH [OF this(1)] this(2) step show False by blast
  qed
qed

lemma collectStats_search_from_one:
  assumes "step < - 2"
  shows "collectStats_search fits step lengths calls stats 1 1 = None"
proof (cases "collectStats_search fits step lengths calls stats 1 1")
  case None
  then show ?thesis .
next
  case (Some r)
  from search_wrapped_never_returns [OF this] assms show ?thesis by simp
qed

lemma search_small:
  "collectStats_search (\<lambda>calls lengths size. size < 8) 8 [8] (Suc 0) [] 1 512 = Some (7, [], 1)"
  apply (subst collectStats_search.simps, simp add: Let_def word_less_nat_alt)
  apply (subst collectStats_search.simps, simp add: Let_def word_less_nat_alt)
  apply (subst collectStats_search.simps, simp add: Let_def word_less_nat_alt)
  apply (subst collectStats_search.simps, simp add: Let_def word_less_nat_alt)
  apply (subst collectStats_search.simps, simp add: Let_def word_less_nat_alt)
  apply (subst collectStats_search.simps, simp add: Let_def word_less_nat_alt)
  done

lemma collectStats_probe_small_workspace:
  "collectStats_probe (\<lambda>calls lengths size. size < 8) 8 16 [16] = None"
proof -
  have d: "collectStats_doubling (\<lambda>calls lengths size. size < 8) [8] 0 512 = Some (1, 512)"
    by (subst collectStats_doubling.simps) simp
  have l: "bucketLengths 8 [16] = [8]"
    by (simp add: bucketLengths_def)
  have s2: "collectStats_search (\<lambda>calls lengths size. size < 8) 8 (bucketLengths 16 [16]) 7 [] 1 1 = None"
    by (rule collectStats_search_from_one) simp
  have b2: "collectStats_buckets (\<lambda>calls lengths size. size < 8) 8 16 [16] 16 7 [] 1 = None"
    by (subst collectStats_buckets.simps) (simp add: s2)
  have b: "collectStats_buckets (\<lambda>calls lengths size. size < 8) 8 16 [16] 8 (Suc 0) [] 512 = None"
    by (subst collectStats_buckets.simps) (simp add: l search_small b2)
  show ?thesis
    by (simp add: collectStats_probe_def l d b)
qed

section \<open>Properties of reading lines\<close>

lemma ends_in_CR: "(\<exists>l. line = l @ [CR]) \<longleftrightarrow> line \<noteq> [] \<and> last line = CR"
  by (metis append_butlast_last_id last_snoc snoc_eq_iff_butlast)

lemma std_getline_line:
  assumes "good s" and "LF \<notin> set l" and "buffer s = l @ LF # rest"
  shows "std_getline s line = (s\<lparr>buffer := rest\<rparr>, l)"
proof -
  have "takeWhile (\<lambda>c. c \<noteq> LF) (l @ LF # rest) = l"
    using assms(2) by (induction l) auto
  moreover have "dropWhile (\<lambda>c. c \<noteq> LF) (l @ LF # rest) = LF # rest"
    using assms(2) by (induction l) auto
  ultimately show ?thesis
    using assms(1,3) by (simp add: std_getline_def)
qed

text \<open>
  C10. \<^verbatim>\<open>getline\<close> aborts exactly when the stream is bad after \<^verbatim>\<open>std::getline\<close>.
  Otherwise it returns the stream of \<^verbatim>\<open>std::getline\<close> and its line, less one carriage
  return when the read has succeeded and the line ends in one, unchanged when not.
  So a line \<open>l\<close> that is followed by a carriage return and a line feed is returned
  as \<open>l\<close>, also when \<open>l\<close> ends in a carriage return itself; and at the end of the
  file the call returns with \<^verbatim>\<open>eofbit\<close> and \<^verbatim>\<open>failbit\<close> set.
\<close>

theorem getline_strips_one_CR:
  "(badbit (fst (std_getline s line)) \<longrightarrow> getline s line = Inl StreamBad)
   \<and> (\<not> badbit (fst (std_getline s line)) \<longrightarrow>
        (\<exists>r. getline s line = Inr (fst (std_getline s line), r)
           \<and> (if \<not> fail (fst (std_getline s line)) \<and> (\<exists>l. snd (std_getline s line) = l @ [CR])
               then snd (std_getline s line) = r @ [CR]
               else r = snd (std_getline s line))))
   \<and> (good s \<and> LF \<notin> set l \<and> buffer s = l @ [CR, LF] @ rest \<longrightarrow>
        getline s line = Inr (s\<lparr>buffer := rest\<rparr>, l))
   \<and> (good s \<and> \<not> deviceError s \<and> buffer s = [] \<longrightarrow>
        getline s line = Inr (s\<lparr>eofbit := True, failbit := True\<rparr>, []))"
proof (intro conjI impI)
  assume "badbit (fst (std_getline s line))"
  then show "getline s line = Inl StreamBad"
    by (cases "std_getline s line") (simp add: getline_def)
next
  assume nb: "\<not> badbit (fst (std_getline s line))"
  obtain s' line' where sl: "std_getline s line = (s', line')"
    by (cases "std_getline s line")
  show "\<exists>r. getline s line = Inr (fst (std_getline s line), r)
           \<and> (if \<not> fail (fst (std_getline s line)) \<and> (\<exists>l. snd (std_getline s line) = l @ [CR])
               then snd (std_getline s line) = r @ [CR]
               else r = snd (std_getline s line))"
    using nb sl ends_in_CR [of line'] by (auto simp: getline_def)
next
  assume h: "good s \<and> LF \<notin> set l \<and> buffer s = l @ [CR, LF] @ rest"
  then have "LF \<notin> set (l @ [CR])" "buffer s = (l @ [CR]) @ LF # rest"
    by (simp_all add: LF_def CR_def)
  with h have "std_getline s line = (s\<lparr>buffer := rest\<rparr>, l @ [CR])"
    by (simp add: std_getline_line)
  with h show "getline s line = Inr (s\<lparr>buffer := rest\<rparr>, l)"
    by (simp add: getline_def good_def fail_def)
next
  assume "good s \<and> \<not> deviceError s \<and> buffer s = []"
  then show "getline s line = Inr (s\<lparr>eofbit := True, failbit := True\<rparr>, [])"
    by (simp add: getline_def std_getline_def good_def fail_def)
qed

theorem getline_strips_one_CR_witness:
  "getline windowsFile ''old'' = Inr (windowsFile\<lparr>buffer := ''c'' @ [CR]\<rparr>, ''ab'' @ [CR])
   \<and> getline (windowsFile\<lparr>buffer := []\<rparr>) ''old''
       = Inr (windowsFile\<lparr>buffer := [], eofbit := True, failbit := True\<rparr>, [])
   \<and> getline (windowsFile\<lparr>buffer := ''c'' @ [CR], eofbit := True\<rparr>) ''old''
       = Inr (windowsFile\<lparr>buffer := ''c'' @ [CR], eofbit := True, failbit := True\<rparr>, ''old'')
   \<and> getline (windowsFile\<lparr>badbit := True\<rparr>) ''old'' = Inl StreamBad"
proof -
  have a: "good windowsFile \<and> LF \<notin> set (''ab'' @ [CR])
      \<and> buffer windowsFile = (''ab'' @ [CR]) @ [CR, LF] @ (''c'' @ [CR])"
    by (simp add: windowsFile_def good_def LF_def CR_def)
  have b: "good (windowsFile\<lparr>buffer := []\<rparr>) \<and> \<not> deviceError (windowsFile\<lparr>buffer := []\<rparr>)
      \<and> buffer (windowsFile\<lparr>buffer := []\<rparr>) = []"
    by (simp add: windowsFile_def good_def)
  have c: "std_getline (windowsFile\<lparr>buffer := ''c'' @ [CR], eofbit := True\<rparr>) ''old''
      = (windowsFile\<lparr>buffer := ''c'' @ [CR], eofbit := True, failbit := True\<rparr>, ''old'')"
    by (simp add: std_getline_def good_def windowsFile_def)
  have c': "\<not> badbit (windowsFile\<lparr>buffer := ''c'' @ [CR], eofbit := True, failbit := True\<rparr>)"
    "fail (windowsFile\<lparr>buffer := ''c'' @ [CR], eofbit := True, failbit := True\<rparr>)"
    by (simp_all add: windowsFile_def fail_def)
  have d: "badbit (fst (std_getline (windowsFile\<lparr>badbit := True\<rparr>) ''old''))"
    by (simp add: std_getline_def good_def)
  from getline_strips_one_CR [of windowsFile "''old''" "''ab'' @ [CR]" "''c'' @ [CR]"] a
  have 1: "getline windowsFile ''old'' = Inr (windowsFile\<lparr>buffer := ''c'' @ [CR]\<rparr>, ''ab'' @ [CR])"
    by simp
  from getline_strips_one_CR [of "windowsFile\<lparr>buffer := []\<rparr>" "''old''"] b
  have 2: "getline (windowsFile\<lparr>buffer := []\<rparr>) ''old''
       = Inr (windowsFile\<lparr>buffer := [], eofbit := True, failbit := True\<rparr>, [])"
    by simp
  from getline_strips_one_CR [of "windowsFile\<lparr>buffer := ''c'' @ [CR], eofbit := True\<rparr>" "''old''"] c c'
  have 3: "getline (windowsFile\<lparr>buffer := ''c'' @ [CR], eofbit := True\<rparr>) ''old''
       = Inr (windowsFile\<lparr>buffer := ''c'' @ [CR], eofbit := True, failbit := True\<rparr>, ''old'')"
    by simp
  from getline_strips_one_CR [of "windowsFile\<lparr>badbit := True\<rparr>" "''old''"] d
  have 4: "getline (windowsFile\<lparr>badbit := True\<rparr>) ''old'' = Inl StreamBad"
    by simp
  from 1 2 3 4 show ?thesis by simp
qed

end
